theory Spec2Isabelle
  imports Main "HOL-Library.Word"
begin

unbundle bit_operations_syntax

section \<open>Data model of \<open>main.c\<close>\<close>

text \<open>
  The program is one C file: \<open>main\<close> creates a helper thread running \<open>run_thread\<close>,
  which blocks all signals, calls \<open>vfork\<close>, and then runs either as the child (reset the
  signal dispositions, restore the mask, \<open>execve\<close>) or as the parent (restore the mask,
  \<open>waitpid\<close>, print the decoded status).

  Everything the code does is a call into the C library or the kernel. The model makes
  these calls explicit: the answers of the system (return values, \<open>errno\<close>, the wait
  status) are read from a record \<open>os\<close>, the kernel state a call changes (the signal mask
  of the thread, the table of signal dispositions) and the global \<open>status\<close> are fields
  of a record \<open>proc\<close>, and every call is appended to a trace.
\<close>

subsection \<open>Signals\<close>

text \<open>\<open>sa_handler\<close>: \<open>SIG_DFL\<close>, \<open>SIG_IGN\<close>, or the address of a handler function.\<close>

datatype sighandler = SIG_DFL | SIG_IGN | Handler nat

text \<open>\<open>sigset_t\<close>: a set of signal numbers.\<close>

type_synonym sigset = "int set"

text \<open>\<open>struct sigaction\<close>, with the four fields the source assigns.\<close>

record sigaction =
  sa_handler :: sighandler
  sa_mask :: sigset
  sa_flags :: int
  sa_restorer :: nat

text \<open>The \<open>how\<close> argument of \<open>pthread_sigmask\<close>, for the two values the source uses.\<close>

datatype sigmask_how = SIG_BLOCK | SIG_SETMASK

subsection \<open>Trace of library calls\<close>

datatype event =
    Ev_pthread_create
  | Ev_pthread_join
  | Ev_pthread_sigmask sigmask_how
  | Ev_vfork
  | Ev_sigemptyset
  | Ev_sigaction_get int
  | Ev_sigaction_set int
  | Ev_execve string "string list" "string list"
  | Ev_waitpid int int
  | Ev_perror string
  | Ev_printf string int
  | Ev_fprintf_stderr string int

subsection \<open>Constants and macros of the system headers\<close>

text \<open>
  \<open>NSIG\<close>, \<open>EINVAL\<close>, \<open>EXIT_SUCCESS\<close>, \<open>EXIT_FAILURE\<close> and the four wait-status macros
  come from \<open><signal.h>\<close>, \<open><errno.h>\<close>, \<open><stdlib.h>\<close> and \<open><sys/wait.h>\<close>, which are
  not part of the source. They are parameters of the model.
\<close>

record platform =
  NSIG :: int
  EINVAL :: int
  EXIT_SUCCESS :: int
  EXIT_FAILURE :: int
  WIFEXITED :: "int \<Rightarrow> bool"
  WEXITSTATUS :: "int \<Rightarrow> int"
  WIFSIGNALED :: "int \<Rightarrow> bool"
  WTERMSIG :: "int \<Rightarrow> int"

subsection \<open>Answers of the operating system\<close>

text \<open>
  One field per call whose result the source reads (or that decides whether control
  comes back at all):
  \<^item> \<open>pthread_create_ret\<close>, \<open>pthread_join_ret\<close>, \<open>sigemptyset_ret\<close>: the return values;
  \<^item> \<open>sigfillset_set\<close>: the set \<open>sigfillset\<close> stores;
  \<^item> \<open>vfork_child\<close>: \<open>None\<close> when \<open>vfork\<close> fails (it returns \<open>-1\<close> and there is no
    child), \<open>Some n\<close> when it creates a child, whose process identifier is \<open>n + 1\<close>
    (a positive number);
  \<^item> \<open>sigaction_get_errno i\<close>, \<open>sigaction_set_errno i\<close>: \<open>None\<close> when querying,
    respectively setting, the disposition of signal \<open>i\<close> succeeds, \<open>Some e\<close> when the
    call returns \<open>-1\<close> with \<open>errno = e\<close>;
  \<^item> \<open>execve_errno\<close>: \<open>None\<close> when the image is replaced (the call does not return),
    \<open>Some e\<close> when \<open>execve\<close> returns \<open>-1\<close>;
  \<^item> \<open>waitpid_status\<close>: \<open>None\<close> when \<open>waitpid\<close> returns \<open>-1\<close>, \<open>Some s\<close> when it
    returns the child's identifier and stores the raw status \<open>s\<close>.
\<close>

record os =
  pthread_create_ret :: int
  pthread_join_ret :: int
  sigfillset_set :: sigset
  vfork_child :: "nat option"
  sigemptyset_ret :: int
  sigaction_get_errno :: "int \<Rightarrow> int option"
  sigaction_set_errno :: "int \<Rightarrow> int option"
  execve_errno :: "int option"
  waitpid_status :: "int option"

subsection \<open>State of a process\<close>

text \<open>
  \<open>sigmask\<close> is the signal mask of the thread that runs the code, \<open>sigdisp\<close> the
  disposition of every signal number, \<open>status\<close> the global \<open>int status\<close>, and \<open>trace\<close>
  the calls made so far, oldest first.
\<close>

record proc =
  sigmask :: sigset
  sigdisp :: "int \<Rightarrow> sigaction"
  status :: int
  trace :: "event list"

definition log :: "event \<Rightarrow> proc \<Rightarrow> proc" where
  "log e p = p\<lparr>trace := trace p @ [e]\<rparr>"

text \<open>How a continuation of the code ends.\<close>

datatype outcome =
    Child_Replaced        \<comment> \<open>\<open>execve\<close> succeeded: the child runs the new image\<close>
  | Child_Exit int        \<comment> \<open>\<open>_exit (c)\<close> in the child\<close>
  | Proc_Exit int         \<comment> \<open>\<open>exit (c)\<close>: the whole process terminates\<close>
  | Thread_Return         \<comment> \<open>\<open>return NULL\<close> from \<open>run_thread\<close>\<close>

section \<open>The library calls\<close>

text \<open>
  \<open>pthread_sigmask (how, &set, &oldset)\<close>: returns the previous mask and installs the
  new one. The source never reads its return value; with one of the two valid values of
  \<open>how\<close> the call cannot fail.
\<close>

definition pthread_sigmask :: "sigmask_how \<Rightarrow> sigset \<Rightarrow> proc \<Rightarrow> sigset \<times> proc" where
  "pthread_sigmask how sset p =
     (sigmask p,
      log (Ev_pthread_sigmask how)
        (p\<lparr>sigmask := (case how of SIG_BLOCK \<Rightarrow> sigmask p \<union> sset | SIG_SETMASK \<Rightarrow> sset)\<rparr>))"

text \<open>\<open>sigaction (i, NULL, &oldsa)\<close>: \<open>Inl errno\<close> on failure, \<open>Inr oldsa\<close> on success.\<close>

definition sigaction_get :: "os \<Rightarrow> int \<Rightarrow> proc \<Rightarrow> (int + sigaction) \<times> proc" where
  "sigaction_get os i p =
     (case sigaction_get_errno os i of
        Some e \<Rightarrow> (Inl e, log (Ev_sigaction_get i) p)
      | None \<Rightarrow> (Inr (sigdisp p i), log (Ev_sigaction_get i) p))"

text \<open>\<open>sigaction (i, &newsa, NULL)\<close>: \<open>Inl errno\<close> on failure (nothing changes),
  \<open>Inr ()\<close> on success (the disposition of \<open>i\<close> is now \<open>newsa\<close>).\<close>

definition sigaction_set :: "os \<Rightarrow> int \<Rightarrow> sigaction \<Rightarrow> proc \<Rightarrow> (int + unit) \<times> proc" where
  "sigaction_set os i newsa p =
     (case sigaction_set_errno os i of
        Some e \<Rightarrow> (Inl e, log (Ev_sigaction_set i) p)
      | None \<Rightarrow> (Inr (), log (Ev_sigaction_set i) (p\<lparr>sigdisp := (sigdisp p)(i := newsa)\<rparr>)))"

text \<open>\<open>waitpid (child, &status, 0)\<close>: the value returned, and the state with the global
  \<open>status\<close> written on success.\<close>

definition waitpid :: "os \<Rightarrow> int \<Rightarrow> proc \<Rightarrow> int \<times> proc" where
  "waitpid os child p =
     (case waitpid_status os of
        None \<Rightarrow> (- 1, log (Ev_waitpid child 0) p)
      | Some s \<Rightarrow> (child, log (Ev_waitpid child 0) (p\<lparr>status := s\<rparr>)))"

section \<open>The globals\<close>

definition filename :: string where
  "filename = ''/bin/ls''"

definition new_argv :: "string list" where
  "new_argv = [''/bin/ls'']"

definition new_envp :: "string list" where
  "new_envp = []"

section \<open>\<open>run_thread\<close>\<close>

subsection \<open>The child: lines 127 to 177\<close>

text \<open>
  The \<open>for\<close> loop over \<open>i = 0 .. NSIG - 1\<close>. \<open>Inl (2, p)\<close> is \<open>_exit (2)\<close> in state \<open>p\<close>;
  \<open>Inr p\<close> is the state in which the loop is left normally.
\<close>

function reset_loop :: "platform \<Rightarrow> os \<Rightarrow> sigaction \<Rightarrow> int \<Rightarrow> proc \<Rightarrow> (int \<times> proc) + proc" where
  "reset_loop pf os newsa i p =
     (if i < NSIG pf then
        (case sigaction_get os i p of
           (Inl e, p1) \<Rightarrow> reset_loop pf os newsa (i + 1) p1
         | (Inr oldsa, p1) \<Rightarrow>
             if sa_handler oldsa \<noteq> SIG_IGN \<and> sa_handler oldsa \<noteq> SIG_DFL then
               (case sigaction_set os i newsa p1 of
                  (Inl errno, p2) \<Rightarrow>
                    if errno \<noteq> EINVAL pf then Inl (2, p2)
                    else reset_loop pf os newsa (i + 1) p2
                | (Inr u, p2) \<Rightarrow> reset_loop pf os newsa (i + 1) p2)
             else reset_loop pf os newsa (i + 1) p1)
      else Inr p)"
  by pat_completeness auto
termination
  by (relation "measure (\<lambda>(pf, os, newsa, i, p). nat (NSIG pf - i))") auto

text \<open>The \<open>newsa\<close> the child builds: \<open>SIG_DFL\<close>, the empty mask, no flags, no restorer.\<close>

definition child_newsa :: sigaction where
  "child_newsa = \<lparr>sa_handler = SIG_DFL, sa_mask = {}, sa_flags = 0, sa_restorer = 0\<rparr>"

definition child_continuation :: "platform \<Rightarrow> os \<Rightarrow> sigset \<Rightarrow> proc \<Rightarrow> outcome \<times> proc" where
  "child_continuation pf os old_signal_mask p =
     (let p1 = log Ev_sigemptyset p in
      if sigemptyset_ret os \<noteq> 0 then (Child_Exit 1, p1)
      else
        (case reset_loop pf os child_newsa 0 p1 of
           Inl (c, p2) \<Rightarrow> (Child_Exit c, p2)
         | Inr p2 \<Rightarrow>
             let (u, p3) = pthread_sigmask SIG_SETMASK old_signal_mask p2;
                 p4 = log (Ev_execve filename new_argv new_envp) p3
             in (case execve_errno os of
                   None \<Rightarrow> (Child_Replaced, p4)
                 | Some e \<Rightarrow> (Child_Exit 3, p4))))"

subsection \<open>The parent: lines 179 to 215\<close>

text \<open>The two \<open>printf\<close> calls that decode the global \<open>status\<close>.\<close>

definition report_status :: "platform \<Rightarrow> proc \<Rightarrow> proc" where
  "report_status pf p =
     (if WIFEXITED pf (status p) then
        log (Ev_printf ''Helper: Exited, status=%d\<newline>'' (WEXITSTATUS pf (status p))) p
      else if WIFSIGNALED pf (status p) then
        log (Ev_printf ''Helper: Killed by signal %d\<newline>'' (WTERMSIG pf (status p))) p
      else p)"

definition parent_continuation ::
  "platform \<Rightarrow> os \<Rightarrow> int \<Rightarrow> sigset \<Rightarrow> proc \<Rightarrow> outcome \<times> proc" where
  "parent_continuation pf os child old_signal_mask p =
     (if child = - 1 then
        let (u, p1) = pthread_sigmask SIG_SETMASK old_signal_mask p;
            p2 = log (Ev_perror ''vfork'') p1
        in (Proc_Exit (EXIT_FAILURE pf), p2)
      else
        let (u, p1) = pthread_sigmask SIG_SETMASK old_signal_mask p;
            (waited, p2) = waitpid os child p1
        in if waited = - 1 then (Proc_Exit (EXIT_FAILURE pf), log (Ev_perror ''wait'') p2)
           else (Thread_Return, report_status pf p2))"

subsection \<open>The code after \<open>vfork\<close> returns \<open>child\<close>\<close>

text \<open>
  The block under \<open>if (child == 0)\<close> is left only through \<open>_exit\<close> or through an \<open>execve\<close>
  that succeeds, neither of which returns; the \<open>if (child == -1) ... else ...\<close> that
  follows it is therefore run only with \<open>child\<close> different from 0.
\<close>

definition after_vfork :: "platform \<Rightarrow> os \<Rightarrow> int \<Rightarrow> sigset \<Rightarrow> proc \<Rightarrow> outcome \<times> proc" where
  "after_vfork pf os child old_signal_mask p =
     (if child = 0 then child_continuation pf os old_signal_mask p
      else parent_continuation pf os child old_signal_mask p)"

subsection \<open>The whole function\<close>

text \<open>
  \<open>vfork\<close> is one call with two returns. When it creates a child, the child runs first,
  from the state of the thread at the call (same mask, same dispositions, the shared
  memory) with \<open>child = 0\<close>, on a trace of its own; the thread is resumed with the
  child's identifier once the child has replaced its image or terminated. The child
  writes only the locals \<open>i\<close>, \<open>ret\<close>, \<open>newsa\<close>, \<open>oldsa\<close> and \<open>empty_mask\<close> of the shared
  frame, which the parent does not read afterwards, and its mask and dispositions are
  its own. \<open>run_thread\<close> returns both views: what the child did, if there is one, and how
  the thread ends.
\<close>

definition vfork_ret :: "os \<Rightarrow> int" where
  "vfork_ret os = (case vfork_child os of None \<Rightarrow> - 1 | Some n \<Rightarrow> int n + 1)"

definition run_thread :: "platform \<Rightarrow> os \<Rightarrow> proc \<Rightarrow> (outcome \<times> proc) option \<times> (outcome \<times> proc)" where
  "run_thread pf os p =
     (let signal_mask = sigfillset_set os;
          (old_signal_mask, p1) = pthread_sigmask SIG_BLOCK signal_mask p;
          p2 = log Ev_vfork p1
      in ((case vfork_child os of
             None \<Rightarrow> None
           | Some n \<Rightarrow> Some (after_vfork pf os 0 old_signal_mask (p2\<lparr>trace := []\<rparr>))),
          after_vfork pf os (vfork_ret os) old_signal_mask p2))"

definition child_view :: "platform \<Rightarrow> os \<Rightarrow> proc \<Rightarrow> (outcome \<times> proc) option" where
  "child_view pf os p = fst (run_thread pf os p)"

definition parent_view :: "platform \<Rightarrow> os \<Rightarrow> proc \<Rightarrow> outcome \<times> proc" where
  "parent_view pf os p = snd (run_thread pf os p)"

section \<open>\<open>main\<close>\<close>

text \<open>
  \<open>main\<close> does nothing between \<open>pthread_create\<close> and \<open>pthread_join\<close>, so the helper
  thread's calls are placed between the two. An \<open>exit\<close> in the helper thread terminates
  the process, and \<open>main\<close> never comes back from \<open>pthread_join\<close>.
\<close>

definition main :: "platform \<Rightarrow> os \<Rightarrow> proc \<Rightarrow> outcome \<times> proc" where
  "main pf os p =
     (let ret = pthread_create_ret os;
          p1 = log Ev_pthread_create p
      in if ret \<noteq> 0 then
           (Proc_Exit (EXIT_FAILURE pf), log (Ev_fprintf_stderr ''pthread_create: %s\<newline>'' ret) p1)
         else
           (case parent_view pf os p1 of
              (Thread_Return, p2) \<Rightarrow>
                let ret = pthread_join_ret os;
                    p3 = log Ev_pthread_join p2
                in if ret \<noteq> 0 then
                     (Proc_Exit (EXIT_FAILURE pf),
                      log (Ev_fprintf_stderr ''pthread_join: %s\<newline>'' ret) p3)
                   else (Proc_Exit (EXIT_SUCCESS pf), p3)
            | (out, p2) \<Rightarrow> (out, p2)))"

section \<open>A concrete platform and concrete systems\<close>

text \<open>
  The properties below are proved for every platform and every system. The instances
  of this section are the inputs at which they are evaluated.

  Linux with the GNU C Library, the platform the source says it is written for:
  65 signal numbers (0 to 64), \<open>EINVAL = 22\<close>, \<open>EXIT_SUCCESS = 0\<close>, \<open>EXIT_FAILURE = 1\<close>,
  and the wait-status macros of \<open><bits/waitstatus.h>\<close>: \<open>WTERMSIG\<close> is the low seven
  bits, \<open>WEXITSTATUS\<close> the second byte, \<open>WIFEXITED\<close> holds when \<open>WTERMSIG\<close> is 0, and
  \<open>WIFSIGNALED\<close> when \<open>((signed char) ((status & 0x7f) + 1) >> 1) > 0\<close>.
\<close>

definition glibc_WTERMSIG :: "int \<Rightarrow> int" where
  "glibc_WTERMSIG s = s AND 127"

definition glibc_WEXITSTATUS :: "int \<Rightarrow> int" where
  "glibc_WEXITSTATUS s = drop_bit 8 (s AND 65280)"

definition glibc_WIFEXITED :: "int \<Rightarrow> bool" where
  "glibc_WIFEXITED s = (glibc_WTERMSIG s = 0)"

definition glibc_WIFSIGNALED :: "int \<Rightarrow> bool" where
  "glibc_WIFSIGNALED s = (0 < drop_bit 1 (sint (word_of_int ((s AND 127) + 1) :: 8 word)))"

definition linux_glibc :: platform where
  "linux_glibc = \<lparr>NSIG = 65, EINVAL = 22, EXIT_SUCCESS = 0, EXIT_FAILURE = 1,
     WIFEXITED = glibc_WIFEXITED, WEXITSTATUS = glibc_WEXITSTATUS,
     WIFSIGNALED = glibc_WIFSIGNALED, WTERMSIG = glibc_WTERMSIG\<rparr>"

text \<open>
  A system on which every call succeeds as on Linux: signal numbers 1 to 64 exist,
  the C library refuses its two internal signals 32 and 33, and the dispositions of
  \<open>SIGKILL\<close> (9) and \<open>SIGSTOP\<close> (19) cannot be set. The child gets identifier 4242 and
  exits with code 0.
\<close>

definition linux_get_errno :: "int \<Rightarrow> int option" where
  "linux_get_errno i = (if i < 1 \<or> 64 < i \<or> i = 32 \<or> i = 33 then Some 22 else None)"

definition linux_set_errno :: "int \<Rightarrow> int option" where
  "linux_set_errno i =
     (if i < 1 \<or> 64 < i \<or> i = 32 \<or> i = 33 \<or> i = 9 \<or> i = 19 then Some 22 else None)"

definition linux_os :: os where
  "linux_os = \<lparr>pthread_create_ret = 0, pthread_join_ret = 0, sigfillset_set = {1..64},
     vfork_child = Some 4241, sigemptyset_ret = 0,
     sigaction_get_errno = linux_get_errno, sigaction_set_errno = linux_set_errno,
     execve_errno = None, waitpid_status = Some 0\<rparr>"

text \<open>A process with handlers installed for \<open>SIGINT\<close> (2) and for the internal signal
  32, \<open>SIGPIPE\<close> (13) ignored, and \<open>SIGUSR1\<close> (10) blocked in the thread.\<close>

definition dfl_action :: sigaction where
  "dfl_action = \<lparr>sa_handler = SIG_DFL, sa_mask = {}, sa_flags = 0, sa_restorer = 0\<rparr>"

definition demo_disp :: "int \<Rightarrow> sigaction" where
  "demo_disp i =
     (if i = 2 then dfl_action\<lparr>sa_handler := Handler 7\<rparr>
      else if i = 32 then dfl_action\<lparr>sa_handler := Handler 8\<rparr>
      else if i = 13 then dfl_action\<lparr>sa_handler := SIG_IGN\<rparr>
      else dfl_action)"

definition demo_proc :: proc where
  "demo_proc = \<lparr>sigmask = {10}, sigdisp = demo_disp, status = 0, trace = []\<rparr>"

section \<open>Notions used to state the properties\<close>

text \<open>A disposition the loop resets: neither \<open>SIG_IGN\<close> nor \<open>SIG_DFL\<close>, the test of
  lines 145 and 146.\<close>

definition custom :: "sigaction \<Rightarrow> bool" where
  "custom sa = (sa_handler sa \<noteq> SIG_IGN \<and> sa_handler sa \<noteq> SIG_DFL)"

text \<open>Signal \<open>j\<close> stops the loop: its query succeeds and finds a handler, and setting it
  fails with an \<open>errno\<close> other than \<open>EINVAL\<close>.\<close>

definition fatal_at :: "platform \<Rightarrow> os \<Rightarrow> proc \<Rightarrow> int \<Rightarrow> bool" where
  "fatal_at pf os p j =
     (sigaction_get_errno os j = None \<and> custom (sigdisp p j) \<and>
      (case sigaction_set_errno os j of None \<Rightarrow> False | Some e \<Rightarrow> e \<noteq> EINVAL pf))"

text \<open>The signal numbers queried, and the children reaped, in a trace, in order.\<close>

fun queried :: "event list \<Rightarrow> int list" where
  "queried [] = []"
| "queried (Ev_sigaction_get i # es) = i # queried es"
| "queried (e # es) = queried es"

fun reaped :: "event list \<Rightarrow> (int \<times> int) list" where
  "reaped [] = []"
| "reaped (Ev_waitpid c opts # es) = (c, opts) # reaped es"
| "reaped (e # es) = reaped es"

text \<open>How many times the mask is set back with \<open>SIG_SETMASK\<close> in a trace.\<close>

definition restores :: "event list \<Rightarrow> nat" where
  "restores es = length (filter (\<lambda>e. e = Ev_pthread_sigmask SIG_SETMASK) es)"

text \<open>The calls the child's code makes; every other event belongs to the parent's
  side or to \<open>main\<close>.\<close>

fun child_side :: "event \<Rightarrow> bool" where
  "child_side Ev_sigemptyset = True"
| "child_side (Ev_sigaction_get i) = True"
| "child_side (Ev_sigaction_set i) = True"
| "child_side (Ev_pthread_sigmask how) = True"
| "child_side (Ev_execve f a e) = True"
| "child_side e = False"

text \<open>The events a call appended: the trace after it, without the trace before it.\<close>

definition appended :: "proc \<Rightarrow> proc \<Rightarrow> event list" where
  "appended p p' = drop (length (trace p)) (trace p')"

text \<open>Systems that differ from \<open>linux_os\<close> in one answer.\<close>

definition query_fail_os :: os where
  "query_fail_os =
     linux_os\<lparr>sigaction_get_errno := (\<lambda>i. if i = 2 then Some 14 else linux_get_errno i)\<rparr>"

definition set_einval_os :: os where
  "set_einval_os =
     linux_os\<lparr>sigaction_set_errno := (\<lambda>i. if i = 2 then Some 22 else linux_set_errno i)\<rparr>"

definition set_fatal_os :: os where
  "set_fatal_os =
     linux_os\<lparr>sigaction_set_errno := (\<lambda>i. if i = 2 then Some 14 else linux_set_errno i)\<rparr>"

definition vfork_fail_os :: os where
  "vfork_fail_os = linux_os\<lparr>vfork_child := None\<rparr>"

definition wait_fail_os :: os where
  "wait_fail_os = linux_os\<lparr>waitpid_status := None\<rparr>"

definition exec_fail_os :: os where
  "exec_fail_os = linux_os\<lparr>execve_errno := Some 2\<rparr>"

definition create_fail_os :: os where
  "create_fail_os = linux_os\<lparr>pthread_create_ret := 11\<rparr>"

definition join_fail_os :: os where
  "join_fail_os = linux_os\<lparr>pthread_join_ret := 3\<rparr>"

definition exit3_os :: os where
  "exit3_os = linux_os\<lparr>waitpid_status := Some 768\<rparr>"

definition killed_os :: os where
  "killed_os = linux_os\<lparr>waitpid_status := Some 9\<rparr>"

section \<open>The loop, case by case\<close>

declare reset_loop.simps [simp del]

lemma log_simps [simp]:
  "sigmask (log e p) = sigmask p" "sigdisp (log e p) = sigdisp p"
  "status (log e p) = status p" "trace (log e p) = trace p @ [e]"
  by (simp_all add: log_def)

lemma reset_loop_done: "\<not> i < NSIG pf \<Longrightarrow> reset_loop pf os newsa i p = Inr p"
  by (simp add: reset_loop.simps)

lemma reset_loop_get_fails:
  "i < NSIG pf \<Longrightarrow> sigaction_get_errno os i = Some e \<Longrightarrow>
   reset_loop pf os newsa i p = reset_loop pf os newsa (i + 1) (log (Ev_sigaction_get i) p)"
  by (subst reset_loop.simps) (simp add: sigaction_get_def)

lemma reset_loop_not_custom:
  "i < NSIG pf \<Longrightarrow> sigaction_get_errno os i = None \<Longrightarrow> \<not> custom (sigdisp p i) \<Longrightarrow>
   reset_loop pf os newsa i p = reset_loop pf os newsa (i + 1) (log (Ev_sigaction_get i) p)"
  by (subst reset_loop.simps) (auto simp add: sigaction_get_def custom_def)

lemma reset_loop_set_ok:
  "i < NSIG pf \<Longrightarrow> sigaction_get_errno os i = None \<Longrightarrow> custom (sigdisp p i) \<Longrightarrow>
   sigaction_set_errno os i = None \<Longrightarrow>
   reset_loop pf os newsa i p =
     reset_loop pf os newsa (i + 1)
       (log (Ev_sigaction_set i) ((log (Ev_sigaction_get i) p)\<lparr>sigdisp := (sigdisp p)(i := newsa)\<rparr>))"
  by (subst reset_loop.simps) (auto simp add: sigaction_get_def sigaction_set_def custom_def)

lemma reset_loop_set_fails:
  "i < NSIG pf \<Longrightarrow> sigaction_get_errno os i = None \<Longrightarrow> custom (sigdisp p i) \<Longrightarrow>
   sigaction_set_errno os i = Some e \<Longrightarrow>
   reset_loop pf os newsa i p =
     (if e \<noteq> EINVAL pf then Inl (2, log (Ev_sigaction_set i) (log (Ev_sigaction_get i) p))
      else reset_loop pf os newsa (i + 1) (log (Ev_sigaction_set i) (log (Ev_sigaction_get i) p)))"
  by (subst reset_loop.simps) (auto simp add: sigaction_get_def sigaction_set_def custom_def)

text \<open>Induction along the loop, one case per way through its body.\<close>

lemma reset_loop_cases_induct [case_names finished get_fails not_custom set_ok set_einval set_fatal]:
  assumes finished: "\<And>i p. \<not> i < NSIG pf \<Longrightarrow> P i p"
    and get_fails: "\<And>i p e. i < NSIG pf \<Longrightarrow> sigaction_get_errno os i = Some e \<Longrightarrow>
          P (i + 1) (log (Ev_sigaction_get i) p) \<Longrightarrow> P i p"
    and not_custom: "\<And>i p. i < NSIG pf \<Longrightarrow> sigaction_get_errno os i = None \<Longrightarrow>
          \<not> custom (sigdisp p i) \<Longrightarrow> P (i + 1) (log (Ev_sigaction_get i) p) \<Longrightarrow> P i p"
    and set_ok: "\<And>i p. i < NSIG pf \<Longrightarrow> sigaction_get_errno os i = None \<Longrightarrow>
          custom (sigdisp p i) \<Longrightarrow> sigaction_set_errno os i = None \<Longrightarrow>
          P (i + 1) (log (Ev_sigaction_set i)
             ((log (Ev_sigaction_get i) p)\<lparr>sigdisp := (sigdisp p)(i := newsa)\<rparr>)) \<Longrightarrow> P i p"
    and set_einval: "\<And>i p. i < NSIG pf \<Longrightarrow> sigaction_get_errno os i = None \<Longrightarrow>
          custom (sigdisp p i) \<Longrightarrow> sigaction_set_errno os i = Some (EINVAL pf) \<Longrightarrow>
          P (i + 1) (log (Ev_sigaction_set i) (log (Ev_sigaction_get i) p)) \<Longrightarrow> P i p"
    and set_fatal: "\<And>i p e. i < NSIG pf \<Longrightarrow> sigaction_get_errno os i = None \<Longrightarrow>
          custom (sigdisp p i) \<Longrightarrow> sigaction_set_errno os i = Some e \<Longrightarrow> e \<noteq> EINVAL pf \<Longrightarrow>
          P i p"
  shows "P i p"
proof -
  have "\<forall>i p. n = nat (NSIG pf - i) \<longrightarrow> P i p" for n
  proof (induction n rule: less_induct)
    case (less n)
    show ?case
    proof (intro allI impI)
      fix i p
      assume n: "n = nat (NSIG pf - i)"
      show "P i p"
      proof (cases "i < NSIG pf")
        case False
        then show ?thesis by (rule finished)
      next
        case True
        with n have "nat (NSIG pf - (i + 1)) < n" by simp
        with less.IH have IH: "P (i + 1) q" for q by blast
        show ?thesis
        proof (cases "sigaction_get_errno os i")
          case (Some e)
          with True IH show ?thesis by (blast intro: get_fails)
        next
          case None
          show ?thesis
          proof (cases "custom (sigdisp p i)")
            case False
            with True None IH show ?thesis by (blast intro: not_custom)
          next
            case cust: True
            show ?thesis
            proof (cases "sigaction_set_errno os i")
              case no_err: None
              with True None cust IH show ?thesis by (blast intro: set_ok)
            next
              case (Some e)
              show ?thesis
              proof (cases "e = EINVAL pf")
                case True
                with \<open>i < NSIG pf\<close> None cust Some IH show ?thesis
                  by (blast intro: set_einval)
              next
                case False
                with \<open>i < NSIG pf\<close> None cust Some show ?thesis
                  by (blast intro: set_fatal)
              qed
            qed
          qed
        qed
      qed
    qed
  qed
  then show ?thesis by blast
qed

lemma int_next: "\<not> i + 1 \<le> j \<Longrightarrow> i \<le> j \<Longrightarrow> j = (i::int)"
  by simp

lemma reset_loop_frame:
  "(reset_loop pf os newsa i p = Inr p' \<longrightarrow> sigmask p' = sigmask p \<and> status p' = status p) \<and>
   (reset_loop pf os newsa i p = Inl (c, p') \<longrightarrow>
      c = 2 \<and> sigmask p' = sigmask p \<and> status p' = status p)"
  by (induction i p rule: reset_loop_cases_induct [of pf _ os newsa])
     (auto simp: reset_loop_done reset_loop_get_fails reset_loop_not_custom reset_loop_set_ok
        reset_loop_set_fails)

lemma reset_loop_disp:
  "reset_loop pf os newsa i p = Inr p' \<Longrightarrow>
   sigdisp p' j =
     (if i \<le> j \<and> j < NSIG pf \<and> sigaction_get_errno os j = None \<and> custom (sigdisp p j) \<and>
         sigaction_set_errno os j = None
      then newsa else sigdisp p j)"
  by (induction i p rule: reset_loop_cases_induct [of pf _ os newsa])
     (auto simp: reset_loop_done reset_loop_get_fails reset_loop_not_custom reset_loop_set_ok
        reset_loop_set_fails dest: int_next)

lemma ex_from_split:
  "(\<exists>j. i \<le> j \<and> j < n \<and> Q j) \<longleftrightarrow> (i < n \<and> Q i) \<or> (\<exists>j. i + 1 \<le> j \<and> j < n \<and> Q j)"
  for i :: int
proof
  assume "\<exists>j. i \<le> j \<and> j < n \<and> Q j"
  then obtain j where j: "i \<le> j" "j < n" "Q j" by blast
  show "(i < n \<and> Q i) \<or> (\<exists>j. i + 1 \<le> j \<and> j < n \<and> Q j)"
  proof (cases "j = i")
    case True
    with j show ?thesis by simp
  next
    case False
    with j have "i + 1 \<le> j" by simp
    with j show ?thesis by blast
  qed
next
  assume "(i < n \<and> Q i) \<or> (\<exists>j. i + 1 \<le> j \<and> j < n \<and> Q j)"
  then show "\<exists>j. i \<le> j \<and> j < n \<and> Q j"
  proof
    assume "i < n \<and> Q i"
    then show ?thesis by (intro exI [of _ i]) simp
  next
    assume "\<exists>j. i + 1 \<le> j \<and> j < n \<and> Q j"
    then obtain j where "i + 1 \<le> j" "j < n" "Q j" by blast
    then show ?thesis by (intro exI [of _ j]) simp
  qed
qed

lemma Inl_iff_step:
  assumes "reset_loop pf os newsa i p = reset_loop pf os newsa (i + 1) q"
    and "\<And>j. i + 1 \<le> j \<Longrightarrow> fatal_at pf os q j = fatal_at pf os p j"
    and "\<not> fatal_at pf os p i"
    and "(\<exists>r. reset_loop pf os newsa (i + 1) q = Inl r) \<longleftrightarrow>
         (\<exists>j. i + 1 \<le> j \<and> j < NSIG pf \<and> fatal_at pf os q j)"
  shows "(\<exists>r. reset_loop pf os newsa i p = Inl r) \<longleftrightarrow>
         (\<exists>j. i \<le> j \<and> j < NSIG pf \<and> fatal_at pf os p j)"
proof -
  have "(\<exists>j. i + 1 \<le> j \<and> j < NSIG pf \<and> fatal_at pf os q j) \<longleftrightarrow>
        (\<exists>j. i + 1 \<le> j \<and> j < NSIG pf \<and> fatal_at pf os p j)"
    using assms(2) by blast
  with assms(1,3,4) show ?thesis
    by (subst ex_from_split) simp
qed

lemma reset_loop_Inl_iff:
  "(\<exists>r. reset_loop pf os newsa i p = Inl r) \<longleftrightarrow> (\<exists>j. i \<le> j \<and> j < NSIG pf \<and> fatal_at pf os p j)"
proof (induction i p rule: reset_loop_cases_induct [of pf _ os newsa])
  case (finished i p)
  then show ?case by (auto simp: reset_loop_done)
next
  case (get_fails i p e)
  show ?case
  proof (rule Inl_iff_step [OF _ _ _ get_fails(3)])
    show "reset_loop pf os newsa i p = reset_loop pf os newsa (i + 1) (log (Ev_sigaction_get i) p)"
      using get_fails(1,2) by (rule reset_loop_get_fails)
  qed (use get_fails(2) in \<open>simp_all add: fatal_at_def\<close>)
next
  case (not_custom i p)
  show ?case
  proof (rule Inl_iff_step [OF _ _ _ not_custom(4)])
    show "reset_loop pf os newsa i p = reset_loop pf os newsa (i + 1) (log (Ev_sigaction_get i) p)"
      using not_custom(1-3) by (rule reset_loop_not_custom)
  qed (use not_custom(3) in \<open>simp_all add: fatal_at_def\<close>)
next
  case (set_ok i p)
  show ?case
  proof (rule Inl_iff_step [OF _ _ _ set_ok(5)])
    show "reset_loop pf os newsa i p = reset_loop pf os newsa (i + 1)
       (log (Ev_sigaction_set i) ((log (Ev_sigaction_get i) p)\<lparr>sigdisp := (sigdisp p)(i := newsa)\<rparr>))"
      using set_ok(1-4) by (rule reset_loop_set_ok)
  qed (use set_ok(4) in \<open>simp_all add: fatal_at_def\<close>)
next
  case (set_einval i p)
  show ?case
  proof (rule Inl_iff_step [OF _ _ _ set_einval(5)])
    show "reset_loop pf os newsa i p = reset_loop pf os newsa (i + 1)
       (log (Ev_sigaction_set i) (log (Ev_sigaction_get i) p))"
      using set_einval(1-4) by (simp add: reset_loop_set_fails)
  qed (use set_einval(4) in \<open>simp_all add: fatal_at_def\<close>)
next
  case (set_fatal i p e)
  then have "fatal_at pf os p i" by (simp add: fatal_at_def)
  with set_fatal show ?case
    by (auto simp: reset_loop_set_fails intro!: exI [of _ i])
qed

lemma queried_append [simp]: "queried (es @ fs) = queried es @ queried fs"
  by (induction es rule: queried.induct) simp_all

lemma reaped_append [simp]: "reaped (es @ fs) = reaped es @ reaped fs"
  by (induction es rule: reaped.induct) simp_all

lemma upto_first: "i < n \<Longrightarrow> [i..n - 1] = i # [i + 1..n - 1]"
  by (simp add: upto_rec1)

lemma reset_loop_queried:
  "reset_loop pf os newsa i p = Inr p' \<Longrightarrow>
   queried (trace p') = queried (trace p) @ [i..NSIG pf - 1]"
  by (induction i p rule: reset_loop_cases_induct [of pf _ os newsa])
     (auto simp: reset_loop_done reset_loop_get_fails reset_loop_not_custom reset_loop_set_ok
        reset_loop_set_fails upto_first)

lemma reset_loop_trace:
  "(reset_loop pf os newsa i p = Inr p' \<or> reset_loop pf os newsa i p = Inl (c, p')) \<Longrightarrow>
   \<exists>es. trace p' = trace p @ es \<and> (\<forall>e\<in>set es. child_side e) \<and> reaped es = []"
proof (induction i p rule: reset_loop_cases_induct [of pf _ os newsa])
  case (finished i p)
  then show ?case by (auto simp: reset_loop_done)
next
  case (get_fails i p e)
  then show ?case by (auto simp: reset_loop_get_fails)
next
  case (not_custom i p)
  then show ?case by (auto simp: reset_loop_not_custom)
next
  case (set_ok i p)
  then show ?case by (auto simp: reset_loop_set_ok)
next
  case (set_einval i p)
  then show ?case by (auto simp: reset_loop_set_fails)
next
  case (set_fatal i p e)
  then show ?case by (auto simp: reset_loop_set_fails)
qed

section \<open>The paths of the parent and of the child\<close>

lemma vfork_ret_Some: "vfork_child os = Some n \<Longrightarrow> vfork_ret os \<noteq> 0 \<and> vfork_ret os \<noteq> - 1 \<and> vfork_ret os = int n + 1"
  by (simp add: vfork_ret_def)

lemma vfork_ret_None: "vfork_child os = None \<Longrightarrow> vfork_ret os = - 1"
  by (simp add: vfork_ret_def)

text \<open>The three ways the thread can end, with the whole state.\<close>

lemma parent_view_vfork_fails:
  "vfork_child os = None \<Longrightarrow>
   parent_view pf os p =
     (Proc_Exit (EXIT_FAILURE pf),
      p\<lparr>trace := trace p @ [Ev_pthread_sigmask SIG_BLOCK, Ev_vfork,
         Ev_pthread_sigmask SIG_SETMASK, Ev_perror ''vfork'']\<rparr>)"
  by (simp add: parent_view_def run_thread_def pthread_sigmask_def after_vfork_def
      vfork_ret_None parent_continuation_def log_def)

lemma parent_view_wait_fails:
  "vfork_child os = Some n \<Longrightarrow> waitpid_status os = None \<Longrightarrow>
   parent_view pf os p =
     (Proc_Exit (EXIT_FAILURE pf),
      p\<lparr>trace := trace p @ [Ev_pthread_sigmask SIG_BLOCK, Ev_vfork,
         Ev_pthread_sigmask SIG_SETMASK, Ev_waitpid (int n + 1) 0, Ev_perror ''wait'']\<rparr>)"
  by (simp add: parent_view_def run_thread_def pthread_sigmask_def after_vfork_def
      vfork_ret_Some parent_continuation_def waitpid_def log_def)

lemma parent_view_reaped:
  "vfork_child os = Some n \<Longrightarrow> waitpid_status os = Some s \<Longrightarrow>
   parent_view pf os p =
     (Thread_Return,
      report_status pf (p\<lparr>status := s, trace := trace p @ [Ev_pthread_sigmask SIG_BLOCK, Ev_vfork,
         Ev_pthread_sigmask SIG_SETMASK, Ev_waitpid (int n + 1) 0]\<rparr>))"
  by (simp add: parent_view_def run_thread_def pthread_sigmask_def after_vfork_def
      vfork_ret_Some parent_continuation_def waitpid_def log_def)

lemma appended_append [simp]: "trace p' = trace p @ es \<Longrightarrow> appended p p' = es"
  by (simp add: appended_def)

lemma child_continuation_emptyset_fails:
  "sigemptyset_ret os \<noteq> 0 \<Longrightarrow>
   child_continuation pf os old p = (Child_Exit 1, log Ev_sigemptyset p)"
  by (simp add: child_continuation_def)

lemma child_continuation_fatal:
  "sigemptyset_ret os = 0 \<Longrightarrow>
   reset_loop pf os child_newsa 0 (log Ev_sigemptyset p) = Inl (c, p2) \<Longrightarrow>
   child_continuation pf os old p = (Child_Exit 2, p2)"
  using reset_loop_frame [of pf os child_newsa 0 "log Ev_sigemptyset p" p2 c]
  by (simp add: child_continuation_def)

lemma child_continuation_exec:
  "sigemptyset_ret os = 0 \<Longrightarrow>
   reset_loop pf os child_newsa 0 (log Ev_sigemptyset p) = Inr p2 \<Longrightarrow>
   child_continuation pf os old p =
     ((case execve_errno os of None \<Rightarrow> Child_Replaced | Some e \<Rightarrow> Child_Exit 3),
      p2\<lparr>sigmask := old,
         trace := trace p2 @ [Ev_pthread_sigmask SIG_SETMASK, Ev_execve filename new_argv new_envp]\<rparr>)"
  by (simp add: child_continuation_def pthread_sigmask_def log_def split: option.splits)

lemma child_continuation_reaches_exec:
  assumes "child_continuation pf os old p = (out, c)"
    and "out = Child_Replaced \<or> out = Child_Exit 3"
  shows "sigemptyset_ret os = 0 \<and>
    (\<exists>p2. reset_loop pf os child_newsa 0 (log Ev_sigemptyset p) = Inr p2 \<and>
       out = (case execve_errno os of None \<Rightarrow> Child_Replaced | Some e \<Rightarrow> Child_Exit 3) \<and>
       c = p2\<lparr>sigmask := old,
         trace := trace p2 @ [Ev_pthread_sigmask SIG_SETMASK, Ev_execve filename new_argv new_envp]\<rparr>)"
proof (cases "sigemptyset_ret os = 0")
  case False
  with assms show ?thesis by (auto simp: child_continuation_emptyset_fails)
next
  case True
  show ?thesis
  proof (cases "reset_loop pf os child_newsa 0 (log Ev_sigemptyset p)")
    case (Inl r)
    obtain k q where "r = (k, q)" by (cases r)
    with Inl True assms show ?thesis by (auto simp: child_continuation_fatal)
  next
    case (Inr p2)
    with True assms show ?thesis by (auto simp: child_continuation_exec)
  qed
qed

lemma child_view_eq:
  "child_view pf os p =
     (case vfork_child os of
        None \<Rightarrow> None
      | Some n \<Rightarrow>
          Some (child_continuation pf os (sigmask p)
                 (p\<lparr>sigmask := sigmask p \<union> sigfillset_set os, trace := []\<rparr>)))"
  by (simp add: child_view_def run_thread_def after_vfork_def pthread_sigmask_def log_def Let_def
      split: option.splits)

lemmas model_defs = child_view_def parent_view_def run_thread_def after_vfork_def vfork_ret_def
  child_continuation_def parent_continuation_def report_status_def pthread_sigmask_def
  sigaction_get_def sigaction_set_def waitpid_def log_def child_newsa_def main_def
  filename_def new_argv_def new_envp_def Let_def

lemmas linux_defs = linux_glibc_def linux_os_def linux_get_errno_def linux_set_errno_def
  demo_proc_def demo_disp_def dfl_action_def glibc_WIFEXITED_def glibc_WEXITSTATUS_def
  glibc_WIFSIGNALED_def glibc_WTERMSIG_def

lemma child_continuation_exit1_iff:
  "fst (child_continuation pf os old p) = Child_Exit 1 \<longleftrightarrow> sigemptyset_ret os \<noteq> 0"
proof (cases "sigemptyset_ret os = 0")
  case False
  then show ?thesis by (simp add: child_continuation_emptyset_fails)
next
  case True
  show ?thesis
  proof (cases "reset_loop pf os child_newsa 0 (log Ev_sigemptyset p)")
    case (Inl r)
    obtain k q where "r = (k, q)" by (cases r)
    with Inl True show ?thesis by (simp add: child_continuation_fatal)
  next
    case (Inr p2)
    with True show ?thesis by (simp add: child_continuation_exec split: option.splits)
  qed
qed

lemma child_continuation_exit2_iff:
  "fst (child_continuation pf os old p) = Child_Exit 2 \<longleftrightarrow>
   sigemptyset_ret os = 0 \<and> (\<exists>j. 0 \<le> j \<and> j < NSIG pf \<and> fatal_at pf os p j)"
proof (cases "sigemptyset_ret os = 0")
  case False
  then show ?thesis by (simp add: child_continuation_emptyset_fails)
next
  case True
  have fa: "fatal_at pf os (log Ev_sigemptyset p) j = fatal_at pf os p j" for j
    by (simp add: fatal_at_def)
  show ?thesis
  proof (cases "reset_loop pf os child_newsa 0 (log Ev_sigemptyset p)")
    case (Inl r)
    obtain k q where "r = (k, q)" by (cases r)
    with Inl True have "fst (child_continuation pf os old p) = Child_Exit 2"
      by (simp add: child_continuation_fatal)
    moreover from Inl have "\<exists>j. 0 \<le> j \<and> j < NSIG pf \<and> fatal_at pf os (log Ev_sigemptyset p) j"
      using reset_loop_Inl_iff [of pf os child_newsa 0 "log Ev_sigemptyset p"] by blast
    ultimately show ?thesis using True by (simp add: fa)
  next
    case (Inr p2)
    then have "\<not> (\<exists>r. reset_loop pf os child_newsa 0 (log Ev_sigemptyset p) = Inl r)" by simp
    then have "\<not> (\<exists>j. 0 \<le> j \<and> j < NSIG pf \<and> fatal_at pf os (log Ev_sigemptyset p) j)"
      using reset_loop_Inl_iff [of pf os child_newsa 0 "log Ev_sigemptyset p"] by blast
    with Inr True show ?thesis
      by (simp add: child_continuation_exec fa split: option.splits)
  qed
qed

lemma child_continuation_cases:
  obtains (emptyset_fails) "sigemptyset_ret os \<noteq> 0"
      "child_continuation pf os old p = (Child_Exit 1, log Ev_sigemptyset p)"
    | (fatal) p2 where "sigemptyset_ret os = 0"
      "reset_loop pf os child_newsa 0 (log Ev_sigemptyset p) = Inl (2, p2)"
      "child_continuation pf os old p = (Child_Exit 2, p2)"
    | (exec) p2 where "sigemptyset_ret os = 0"
      "reset_loop pf os child_newsa 0 (log Ev_sigemptyset p) = Inr p2"
      "child_continuation pf os old p =
         ((case execve_errno os of None \<Rightarrow> Child_Replaced | Some e \<Rightarrow> Child_Exit 3),
          p2\<lparr>sigmask := old,
             trace := trace p2 @ [Ev_pthread_sigmask SIG_SETMASK, Ev_execve filename new_argv new_envp]\<rparr>)"
proof (cases "sigemptyset_ret os = 0")
  case False
  then show ?thesis by (auto intro: emptyset_fails simp: child_continuation_emptyset_fails)
next
  case True
  show ?thesis
  proof (cases "reset_loop pf os child_newsa 0 (log Ev_sigemptyset p)")
    case (Inl r)
    obtain k q where r: "r = (k, q)" by (cases r)
    with Inl reset_loop_frame [of pf os child_newsa 0 "log Ev_sigemptyset p" q k]
    have "k = 2" by simp
    with Inl r True show ?thesis
      by (intro fatal [of q]) (simp_all add: child_continuation_fatal)
  next
    case (Inr p2)
    with True show ?thesis
      by (intro exec [of p2]) (simp_all add: child_continuation_exec)
  qed
qed

text \<open>
  The macros of the GNU C Library on the statuses Linux produces: \<open>c * 256\<close> for a
  normal exit with code \<open>c\<close>, the signal number for a death by signal. A status never
  satisfies both \<open>WIFSIGNALED\<close> and \<open>WIFEXITED\<close>.
\<close>

lemma glibc_signaled_not_exited: "glibc_WIFSIGNALED s \<Longrightarrow> \<not> glibc_WIFEXITED s"
proof
  assume a: "glibc_WIFSIGNALED s" and "glibc_WIFEXITED s"
  then have "s AND 127 = 0" by (simp add: glibc_WIFEXITED_def glibc_WTERMSIG_def)
  with a show False by (simp add: glibc_WIFSIGNALED_def)
qed

lemma and_255: "(c::int) AND 255 = take_bit 8 c"
  using take_bit_eq_mask [of 8 c] by (simp add: mask_eq_exp_minus_1)

lemma and_127: "(c::int) AND 127 = take_bit 7 c"
  using take_bit_eq_mask [of 7 c] by (simp add: mask_eq_exp_minus_1)

lemma glibc_exit_encoding:
  assumes "0 \<le> c" "c \<le> 255"
  shows "glibc_WIFEXITED (push_bit 8 c) \<and> glibc_WEXITSTATUS (push_bit 8 c) = c"
proof -
  have c: "take_bit 8 c = c"
    using assms by (simp add: take_bit_int_eq_self)
  have low: "take_bit 7 (push_bit 8 c) = 0"
    by (simp add: take_bit_push_bit)
  have e: "(65280::int) = push_bit 8 255" by simp
  have "push_bit 8 c AND 65280 = push_bit 8 c AND push_bit 8 (255::int)"
    by (simp only: e)
  also have "\<dots> = push_bit 8 (c AND 255)"
    by (simp only: push_bit_and)
  also have "\<dots> = push_bit 8 c"
    by (simp only: and_255 c)
  finally have hi: "push_bit 8 c AND 65280 = push_bit 8 c" .
  have "drop_bit 8 (push_bit 8 c) = c"
    by (simp add: drop_bit_push_bit)
  with hi low show ?thesis
    by (simp only: glibc_WIFEXITED_def glibc_WTERMSIG_def glibc_WEXITSTATUS_def and_127 simp_thms)
qed

lemma glibc_WEXITSTATUS_range: "0 \<le> glibc_WEXITSTATUS s \<and> glibc_WEXITSTATUS s \<le> 255"
proof -
  have "0 \<le> s AND 65280" by simp
  moreover have "s AND 65280 \<le> 65280" by (rule AND_upper2) simp
  ultimately have "0 \<le> (s AND 65280) div 256 \<and> (s AND 65280) div 256 \<le> 255"
    by presburger
  then show ?thesis
    by (simp add: glibc_WEXITSTATUS_def drop_bit_eq_div)
qed

lemma glibc_signal_encoding:
  assumes "1 \<le> sg" "sg \<le> 126"
  shows "glibc_WIFSIGNALED sg \<and> \<not> glibc_WIFEXITED sg \<and> glibc_WTERMSIG sg = sg"
proof -
  have t: "sg AND 127 = sg"
    using assms by (simp add: and_127 take_bit_int_eq_self)
  have "sint (word_of_int (sg + 1) :: 8 word) = sg + 1"
    using assms unfolding sint_sbintrunc' by (simp add: signed_take_bit_int_eq_self)
  moreover have "0 < drop_bit 1 (sg + 1)"
    using assms by (simp add: drop_bit_eq_div)
  ultimately show ?thesis
    using assms t by (simp add: glibc_WIFSIGNALED_def glibc_WIFEXITED_def glibc_WTERMSIG_def)
qed

section \<open>The claims\<close>

text \<open>
  Claim C1. On every path of the helper thread (\<open>vfork\<close> failed, \<open>waitpid\<close> failed, child
  reaped) the signal mask of the thread at the end is the mask it had when \<open>run_thread\<close>
  began: the thread sets it back exactly once, as its first call after \<open>vfork\<close> returns.
  In the child, whenever the code reaches \<open>execve\<close>, the mask is that same mask, set back
  by the call just before \<open>execve\<close>.
\<close>

theorem signal_mask_restored:
  "sigmask (snd (parent_view pf os p)) = sigmask p \<and>
   restores (appended p (snd (parent_view pf os p))) = 1 \<and>
   take 3 (appended p (snd (parent_view pf os p))) =
     [Ev_pthread_sigmask SIG_BLOCK, Ev_vfork, Ev_pthread_sigmask SIG_SETMASK] \<and>
   (\<forall>out c. child_view pf os p = Some (out, c) \<longrightarrow> out = Child_Replaced \<or> out = Child_Exit 3 \<longrightarrow>
      sigmask c = sigmask p \<and>
      (\<exists>es. trace c = es @ [Ev_pthread_sigmask SIG_SETMASK, Ev_execve filename new_argv new_envp]))"
proof -
  have parent: "sigmask (snd (parent_view pf os p)) = sigmask p \<and>
     restores (appended p (snd (parent_view pf os p))) = 1 \<and>
     take 3 (appended p (snd (parent_view pf os p))) =
       [Ev_pthread_sigmask SIG_BLOCK, Ev_vfork, Ev_pthread_sigmask SIG_SETMASK]"
  proof (cases "vfork_child os")
    case None
    then show ?thesis by (simp add: parent_view_vfork_fails restores_def)
  next
    case (Some n)
    show ?thesis
    proof (cases "waitpid_status os")
      case None
      with Some show ?thesis by (simp add: parent_view_wait_fails restores_def)
    next
      case (Some s)
      with \<open>vfork_child os = Some n\<close> show ?thesis
        by (simp add: parent_view_reaped report_status_def restores_def)
    qed
  qed
  have child: "sigmask c = sigmask p \<and>
      (\<exists>es. trace c = es @ [Ev_pthread_sigmask SIG_SETMASK, Ev_execve filename new_argv new_envp])"
    if cv: "child_view pf os p = Some (out, c)" and out: "out = Child_Replaced \<or> out = Child_Exit 3"
    for out c
  proof -
    let ?q = "p\<lparr>sigmask := sigmask p \<union> sigfillset_set os, trace := []\<rparr>"
    from cv have "child_continuation pf os (sigmask p) ?q = (out, c)"
      by (simp add: child_view_eq split: option.splits)
    from child_continuation_reaches_exec [OF this out] show ?thesis by auto
  qed
  from parent child show ?thesis by blast
qed

theorem signal_mask_restored_witness:
  "sigmask (snd (parent_view linux_glibc linux_os demo_proc)) = {10} \<and>
   fst (the (child_view linux_glibc linux_os demo_proc)) = Child_Replaced \<and>
   sigmask (snd (the (child_view linux_glibc linux_os demo_proc))) = {10}"
proof -
  have "\<exists>c. child_view linux_glibc linux_os demo_proc = Some (Child_Replaced, c)"
    by (simp add: model_defs linux_defs reset_loop.simps)
  then obtain c where cv: "child_view linux_glibc linux_os demo_proc = Some (Child_Replaced, c)"
    by blast
  with signal_mask_restored [of linux_glibc linux_os demo_proc]
  have "sigmask c = sigmask demo_proc"
    and "sigmask (snd (parent_view linux_glibc linux_os demo_proc)) = sigmask demo_proc"
    by blast+
  with cv show ?thesis by (simp add: demo_proc_def)
qed

text \<open>
  Claim C2, as stated, fails: a query that fails does not end the child. Below, the
  query of \<open>SIGINT\<close> fails with \<open>EFAULT\<close> on one system, and the C library refuses
  the query of signal 32 on the other; in both the child goes on and replaces its image.
\<close>

theorem query_failure_not_fatal_cex:
  "sigaction_get_errno query_fail_os 2 = Some 14 \<and>
   fst (child_continuation linux_glibc query_fail_os {10} demo_proc) = Child_Replaced \<and>
   sigaction_get_errno linux_os 32 = Some 22 \<and>
   fst (child_continuation linux_glibc linux_os {10} demo_proc) = Child_Replaced"
  by (simp add: model_defs linux_defs query_fail_os_def reset_loop.simps)

text \<open>
  Claim C2, amended. A query that fails is not fatal: the signal is skipped and the loop
  goes on with the next number. The child ends with code 1 exactly when \<open>sigemptyset\<close>
  fails. When the child reaches \<open>execve\<close>, it has queried every number from 0 to
  \<open>NSIG - 1\<close>, once each and in order.
\<close>

theorem query_failure_skipped:
  "(i < NSIG pf \<and> sigaction_get_errno os i = Some e \<longrightarrow>
      reset_loop pf os newsa i q = reset_loop pf os newsa (i + 1) (log (Ev_sigaction_get i) q)) \<and>
   (fst (child_continuation pf os old p) = Child_Exit 1 \<longleftrightarrow> sigemptyset_ret os \<noteq> 0) \<and>
   (fst (child_continuation pf os old p) = Child_Replaced \<or>
    fst (child_continuation pf os old p) = Child_Exit 3 \<longrightarrow>
      queried (appended p (snd (child_continuation pf os old p))) = [0..NSIG pf - 1])"
proof (intro conjI impI)
  assume "i < NSIG pf \<and> sigaction_get_errno os i = Some e"
  then show "reset_loop pf os newsa i q = reset_loop pf os newsa (i + 1) (log (Ev_sigaction_get i) q)"
    by (simp add: reset_loop_get_fails)
next
  show "fst (child_continuation pf os old p) = Child_Exit 1 \<longleftrightarrow> sigemptyset_ret os \<noteq> 0"
    by (rule child_continuation_exit1_iff)
next
  let ?r = "child_continuation pf os old p"
  assume out: "fst ?r = Child_Replaced \<or> fst ?r = Child_Exit 3"
  have "?r = (fst ?r, snd ?r)" by simp
  from child_continuation_reaches_exec [OF this out]
  obtain p2 where loop: "reset_loop pf os child_newsa 0 (log Ev_sigemptyset p) = Inr p2"
    and c: "snd ?r = p2\<lparr>sigmask := old,
         trace := trace p2 @ [Ev_pthread_sigmask SIG_SETMASK, Ev_execve filename new_argv new_envp]\<rparr>"
    by blast
  from reset_loop_trace [of pf os child_newsa 0 "log Ev_sigemptyset p" p2] loop
  obtain es where es: "trace p2 = trace (log Ev_sigemptyset p) @ es" by blast
  from reset_loop_queried [OF loop] es have "queried es = [0..NSIG pf - 1]" by simp
  moreover from c es have "appended p (snd ?r) =
     Ev_sigemptyset # es @ [Ev_pthread_sigmask SIG_SETMASK, Ev_execve filename new_argv new_envp]"
    by (simp add: appended_def)
  ultimately show "queried (appended p (snd ?r)) = [0..NSIG pf - 1]" by simp
qed

theorem query_failure_skipped_witness:
  "(0::int) < NSIG linux_glibc \<and> sigaction_get_errno linux_os 0 = Some 22 \<and>
   reset_loop linux_glibc linux_os child_newsa 0 demo_proc =
     reset_loop linux_glibc linux_os child_newsa 1 (log (Ev_sigaction_get 0) demo_proc) \<and>
   fst (child_continuation linux_glibc linux_os {10} demo_proc) = Child_Replaced \<and>
   queried (appended demo_proc (snd (child_continuation linux_glibc linux_os {10} demo_proc))) = [0..64]"
proof -
  have a: "(0::int) < NSIG linux_glibc \<and> sigaction_get_errno linux_os 0 = Some 22"
    by (simp add: linux_defs)
  have b: "fst (child_continuation linux_glibc linux_os {10} demo_proc) = Child_Replaced"
    by (simp add: model_defs linux_defs reset_loop.simps)
  have n: "NSIG linux_glibc - 1 = 64" by (simp add: linux_defs)
  from query_failure_skipped [of 0 linux_glibc linux_os 22 child_newsa demo_proc "{10}" demo_proc] a b n
  show ?thesis by simp
qed

text \<open>
  Claim C3, as stated, fails: a signal with a handler whose query fails is skipped
  without any attempt to set it, and the handler is still installed when the child
  replaces its image. So it is for signal 32, whose query the C library refuses, and for
  \<open>SIGINT\<close> on the system where its query fails with \<open>EFAULT\<close>.
\<close>

theorem handler_survives_failed_query_cex:
  "fst (child_continuation linux_glibc linux_os {10} demo_proc) = Child_Replaced \<and>
   sa_handler (sigdisp (snd (child_continuation linux_glibc linux_os {10} demo_proc)) 32) = Handler 8 \<and>
   Ev_sigaction_set 32 \<notin> set (trace (snd (child_continuation linux_glibc linux_os {10} demo_proc))) \<and>
   fst (child_continuation linux_glibc query_fail_os {10} demo_proc) = Child_Replaced \<and>
   sa_handler (sigdisp (snd (child_continuation linux_glibc query_fail_os {10} demo_proc)) 2) = Handler 7 \<and>
   sigaction_get_errno query_fail_os 2 = Some 14 \<and> EINVAL linux_glibc = 22 \<and>
   Ev_sigaction_set 2 \<notin> set (trace (snd (child_continuation linux_glibc query_fail_os {10} demo_proc)))"
  by (simp add: model_defs linux_defs query_fail_os_def reset_loop.simps)

text \<open>
  Claim C3, amended. When the child reaches \<open>execve\<close>: a signal in the range of the loop
  whose query succeeded and found a handler is now \<open>SIG_DFL\<close>, unless setting it failed
  with \<open>EINVAL\<close>, in which case it is unchanged; a signal that was \<open>SIG_IGN\<close> is
  untouched, one that was \<open>SIG_DFL\<close> still is; a signal whose query failed is
  unchanged. So a handler that is still installed is the original one, of a signal
  outside the range, or whose query failed, or whose set failed with \<open>EINVAL\<close>.
\<close>

theorem dispositions_after_reset:
  assumes "child_continuation pf os old p = (out, c)"
    and "out = Child_Replaced \<or> out = Child_Exit 3"
  shows "(0 \<le> j \<and> j < NSIG pf \<and> sigaction_get_errno os j = None \<and> custom (sigdisp p j) \<longrightarrow>
            (sigaction_set_errno os j = None \<and> sa_handler (sigdisp c j) = SIG_DFL) \<or>
            (sigaction_set_errno os j = Some (EINVAL pf) \<and> sigdisp c j = sigdisp p j)) \<and>
         (sa_handler (sigdisp p j) = SIG_IGN \<longrightarrow> sigdisp c j = sigdisp p j) \<and>
         (sa_handler (sigdisp p j) = SIG_DFL \<longrightarrow> sa_handler (sigdisp c j) = SIG_DFL) \<and>
         (sigaction_get_errno os j \<noteq> None \<longrightarrow> sigdisp c j = sigdisp p j) \<and>
         (custom (sigdisp c j) \<longrightarrow>
            sigdisp c j = sigdisp p j \<and>
            (j < 0 \<or> NSIG pf \<le> j \<or> sigaction_get_errno os j \<noteq> None \<or>
             sigaction_set_errno os j = Some (EINVAL pf)))"
proof -
  from child_continuation_reaches_exec [OF assms]
  obtain p2 where loop: "reset_loop pf os child_newsa 0 (log Ev_sigemptyset p) = Inr p2"
    and c: "c = p2\<lparr>sigmask := old,
         trace := trace p2 @ [Ev_pthread_sigmask SIG_SETMASK, Ev_execve filename new_argv new_envp]\<rparr>"
    by blast
  have disp: "sigdisp c j =
     (if 0 \<le> j \<and> j < NSIG pf \<and> sigaction_get_errno os j = None \<and> custom (sigdisp p j) \<and>
         sigaction_set_errno os j = None
      then child_newsa else sigdisp p j)"
    using reset_loop_disp [OF loop, of j] c by simp
  have no_fatal: "\<not> fatal_at pf os p j" if "0 \<le> j" "j < NSIG pf"
  proof
    assume "fatal_at pf os p j"
    then have "fatal_at pf os (log Ev_sigemptyset p) j" by (simp add: fatal_at_def)
    with that have "\<exists>j. 0 \<le> j \<and> j < NSIG pf \<and> fatal_at pf os (log Ev_sigemptyset p) j" by blast
    then have "\<exists>r. reset_loop pf os child_newsa 0 (log Ev_sigemptyset p) = Inl r"
      by (simp only: reset_loop_Inl_iff)
    with loop show False by simp
  qed
  have new: "sa_handler child_newsa = SIG_DFL" "\<not> custom child_newsa"
    by (simp_all add: child_newsa_def custom_def)
  show ?thesis
  proof (intro conjI impI)
    assume h: "0 \<le> j \<and> j < NSIG pf \<and> sigaction_get_errno os j = None \<and> custom (sigdisp p j)"
    show "(sigaction_set_errno os j = None \<and> sa_handler (sigdisp c j) = SIG_DFL) \<or>
          (sigaction_set_errno os j = Some (EINVAL pf) \<and> sigdisp c j = sigdisp p j)"
    proof (cases "sigaction_set_errno os j")
      case None
      with h disp new show ?thesis by simp
    next
      case (Some e)
      with h no_fatal have "e = EINVAL pf" by (simp add: fatal_at_def)
      with Some disp show ?thesis by simp
    qed
  next
    assume "sa_handler (sigdisp p j) = SIG_IGN"
    with disp show "sigdisp c j = sigdisp p j" by (simp add: custom_def)
  next
    assume "sa_handler (sigdisp p j) = SIG_DFL"
    with disp show "sa_handler (sigdisp c j) = SIG_DFL" by (simp add: custom_def)
  next
    assume "sigaction_get_errno os j \<noteq> None"
    with disp show "sigdisp c j = sigdisp p j" by simp
  next
    assume cu: "custom (sigdisp c j)"
    with disp new show "sigdisp c j = sigdisp p j" by (auto split: if_splits)
  next
    assume cu: "custom (sigdisp c j)"
    with disp new have same: "sigdisp c j = sigdisp p j"
      and nset: "\<not> (0 \<le> j \<and> j < NSIG pf \<and> sigaction_get_errno os j = None \<and>
           sigaction_set_errno os j = None)"
      by (auto split: if_splits)
    show "j < 0 \<or> NSIG pf \<le> j \<or> sigaction_get_errno os j \<noteq> None \<or>
          sigaction_set_errno os j = Some (EINVAL pf)"
    proof (cases "0 \<le> j \<and> j < NSIG pf \<and> sigaction_get_errno os j = None")
      case False
      then show ?thesis by auto
    next
      case True
      with nset obtain e where e: "sigaction_set_errno os j = Some e" by auto
      from cu same have "custom (sigdisp p j)" by simp
      with True e no_fatal have "e = EINVAL pf" by (simp add: fatal_at_def)
      with e show ?thesis by simp
    qed
  qed
qed

theorem dispositions_after_reset_witness:
  "fst (child_continuation linux_glibc set_einval_os {10} demo_proc) = Child_Replaced \<and>
   custom (demo_disp 2) \<and> sigaction_get_errno set_einval_os 2 = None \<and>
   sigaction_set_errno set_einval_os 2 = Some (EINVAL linux_glibc) \<and>
   sigdisp (snd (child_continuation linux_glibc set_einval_os {10} demo_proc)) 2 = demo_disp 2 \<and>
   sa_handler (demo_disp 13) = SIG_IGN \<and>
   sigdisp (snd (child_continuation linux_glibc set_einval_os {10} demo_proc)) 13 = demo_disp 13"
proof -
  define r where "r = child_continuation linux_glibc set_einval_os {10} demo_proc"
  have out: "fst r = Child_Replaced"
    unfolding r_def by (simp add: model_defs linux_defs set_einval_os_def reset_loop.simps)
  then have r: "child_continuation linux_glibc set_einval_os {10} demo_proc = (Child_Replaced, snd r)"
    unfolding r_def by (simp add: prod_eq_iff)
  have facts: "custom (demo_disp 2)" "sigaction_get_errno set_einval_os 2 = None"
    "sigaction_set_errno set_einval_os 2 = Some (EINVAL linux_glibc)"
    "sa_handler (demo_disp 13) = SIG_IGN" "(2::int) < NSIG linux_glibc"
    "sigdisp demo_proc = demo_disp"
    by (simp_all add: linux_defs set_einval_os_def custom_def)
  have "sigdisp (snd r) 2 = demo_disp 2"
    using dispositions_after_reset [OF r disjI1 [OF refl], where j = 2, THEN conjunct1] facts
    by simp
  moreover have "sigdisp (snd r) 13 = demo_disp 13"
    using dispositions_after_reset [OF r disjI1 [OF refl], where j = 13, THEN conjunct2, THEN conjunct1]
      facts
    by simp
  ultimately show ?thesis using out facts unfolding r_def by simp
qed

text \<open>
  Claim C4. When setting the disposition of a signal that has a handler fails, what
  happens depends on \<open>errno\<close> alone: with \<open>EINVAL\<close> the loop goes on with the next
  signal; with any other value the child ends at once with code 2, the failed call
  being the last thing it did. Over the whole child: it ends with code 2 exactly when
  \<open>sigemptyset\<close> succeeded and some signal in the range of the loop has a query that
  succeeds, a handler, and a set that fails with an \<open>errno\<close> other than \<open>EINVAL\<close>.
\<close>

theorem set_failure_split:
  assumes "i < NSIG pf" and "sigaction_get_errno os i = None" and "custom (sigdisp q i)"
    and "sigaction_set_errno os i = Some e"
  shows "(e = EINVAL pf \<longrightarrow>
            reset_loop pf os newsa i q =
              reset_loop pf os newsa (i + 1) (log (Ev_sigaction_set i) (log (Ev_sigaction_get i) q))) \<and>
         (e \<noteq> EINVAL pf \<longrightarrow>
            reset_loop pf os newsa i q =
              Inl (2, log (Ev_sigaction_set i) (log (Ev_sigaction_get i) q))) \<and>
         (fst (child_continuation pf os old p) = Child_Exit 2 \<longleftrightarrow>
            sigemptyset_ret os = 0 \<and> (\<exists>j. 0 \<le> j \<and> j < NSIG pf \<and> fatal_at pf os p j))"
  using reset_loop_set_fails [OF assms, of newsa] child_continuation_exit2_iff [of pf os old p]
  by simp

theorem set_failure_split_witness:
  "reset_loop linux_glibc set_einval_os child_newsa 2 demo_proc =
     reset_loop linux_glibc set_einval_os child_newsa 3
       (log (Ev_sigaction_set 2) (log (Ev_sigaction_get 2) demo_proc)) \<and>
   fst (child_continuation linux_glibc set_einval_os {10} demo_proc) = Child_Replaced \<and>
   reset_loop linux_glibc set_fatal_os child_newsa 2 demo_proc =
     Inl (2, log (Ev_sigaction_set 2) (log (Ev_sigaction_get 2) demo_proc)) \<and>
   fst (child_continuation linux_glibc set_fatal_os {10} demo_proc) = Child_Exit 2"
proof -
  have a: "(2::int) < NSIG linux_glibc" "custom (sigdisp demo_proc 2)"
    "sigaction_get_errno set_einval_os 2 = None" "sigaction_get_errno set_fatal_os 2 = None"
    "sigaction_set_errno set_einval_os 2 = Some 22" "sigaction_set_errno set_fatal_os 2 = Some 14"
    "EINVAL linux_glibc = 22" "sigemptyset_ret set_fatal_os = 0"
    by (simp_all add: linux_defs set_einval_os_def set_fatal_os_def custom_def)
  have f: "fatal_at linux_glibc set_fatal_os demo_proc 2"
    using a by (simp add: fatal_at_def)
  note t1 = set_failure_split [of 2 linux_glibc set_einval_os demo_proc 22 child_newsa "{10}" demo_proc,
      OF a(1) a(3) a(2) a(5)]
  note t2 = set_failure_split [of 2 linux_glibc set_fatal_os demo_proc 14 child_newsa "{10}" demo_proc,
      OF a(1) a(4) a(2) a(6)]
  have "reset_loop linux_glibc set_einval_os child_newsa 2 demo_proc =
     reset_loop linux_glibc set_einval_os child_newsa 3
       (log (Ev_sigaction_set 2) (log (Ev_sigaction_get 2) demo_proc))"
    using t1 [THEN conjunct1] a(7) by simp
  moreover have "fst (child_continuation linux_glibc set_einval_os {10} demo_proc) = Child_Replaced"
    by (simp add: model_defs linux_defs set_einval_os_def reset_loop.simps)
  moreover have "reset_loop linux_glibc set_fatal_os child_newsa 2 demo_proc =
     Inl (2, log (Ev_sigaction_set 2) (log (Ev_sigaction_get 2) demo_proc))"
    using t2 [THEN conjunct2, THEN conjunct1] a(7) by simp
  moreover have "fst (child_continuation linux_glibc set_fatal_os {10} demo_proc) = Child_Exit 2"
    using t2 [THEN conjunct2, THEN conjunct2] a(1,8) f by auto
  ultimately show ?thesis by blast
qed

text \<open>
  Claim C5. After a \<open>vfork\<close> and a \<open>waitpid\<close> that succeed, the thread returns with the
  raw status in the global \<open>status\<close>. A child that exited normally with code \<open>c\<close> is a
  status with \<open>WIFEXITED\<close> true and \<open>WEXITSTATUS\<close> equal to \<open>c\<close>; a child terminated by
  signal \<open>sg\<close> is a status with \<open>WIFEXITED\<close> false, \<open>WIFSIGNALED\<close> true and \<open>WTERMSIG\<close>
  equal to \<open>sg\<close>. In the first case the thread's last call prints \<open>Exited\<close> with \<open>c\<close>, in
  the second \<open>Killed by signal\<close> with \<open>sg\<close>, and it prints nothing else.
\<close>

theorem wait_status_decoded:
  assumes "vfork_child os = Some n" and "waitpid_status os = Some s"
  shows "fst (parent_view pf os p) = Thread_Return \<and>
         status (snd (parent_view pf os p)) = s \<and>
         (WIFEXITED pf s \<and> WEXITSTATUS pf s = c \<longrightarrow>
            appended p (snd (parent_view pf os p)) =
              [Ev_pthread_sigmask SIG_BLOCK, Ev_vfork, Ev_pthread_sigmask SIG_SETMASK,
               Ev_waitpid (int n + 1) 0, Ev_printf ''Helper: Exited, status=%d\<newline>'' c]) \<and>
         (\<not> WIFEXITED pf s \<and> WIFSIGNALED pf s \<and> WTERMSIG pf s = sg \<longrightarrow>
            appended p (snd (parent_view pf os p)) =
              [Ev_pthread_sigmask SIG_BLOCK, Ev_vfork, Ev_pthread_sigmask SIG_SETMASK,
               Ev_waitpid (int n + 1) 0, Ev_printf ''Helper: Killed by signal %d\<newline>'' sg])"
proof -
  let ?calls = "[Ev_pthread_sigmask SIG_BLOCK, Ev_vfork, Ev_pthread_sigmask SIG_SETMASK,
     Ev_waitpid (int n + 1) 0]"
  define q where "q = p\<lparr>status := s, trace := trace p @ ?calls\<rparr>"
  have pv: "parent_view pf os p = (Thread_Return, report_status pf q)"
    unfolding q_def using assms by (rule parent_view_reaped)
  have q: "status q = s" "trace q = trace p @ ?calls"
    by (simp_all add: q_def)
  have st: "status (report_status pf q) = s"
    using q(1) by (simp add: report_status_def)
  have ex: "appended p (report_status pf q) =
      ?calls @ [Ev_printf ''Helper: Exited, status=%d\<newline>'' c]"
    if "WIFEXITED pf s" "WEXITSTATUS pf s = c"
    using that q by (simp add: report_status_def)
  have sig: "appended p (report_status pf q) =
      ?calls @ [Ev_printf ''Helper: Killed by signal %d\<newline>'' sg]"
    if "\<not> WIFEXITED pf s" "WIFSIGNALED pf s" "WTERMSIG pf s = sg"
    using that q by (simp add: report_status_def)
  from pv st ex sig show ?thesis by simp
qed

theorem wait_status_decoded_witness:
  "WIFEXITED linux_glibc 768 \<and> WEXITSTATUS linux_glibc 768 = 3 \<and>
   appended demo_proc (snd (parent_view linux_glibc exit3_os demo_proc)) =
     [Ev_pthread_sigmask SIG_BLOCK, Ev_vfork, Ev_pthread_sigmask SIG_SETMASK,
      Ev_waitpid 4242 0, Ev_printf ''Helper: Exited, status=%d\<newline>'' 3] \<and>
   \<not> WIFEXITED linux_glibc 9 \<and> WIFSIGNALED linux_glibc 9 \<and> WTERMSIG linux_glibc 9 = 9 \<and>
   appended demo_proc (snd (parent_view linux_glibc killed_os demo_proc)) =
     [Ev_pthread_sigmask SIG_BLOCK, Ev_vfork, Ev_pthread_sigmask SIG_SETMASK,
      Ev_waitpid 4242 0, Ev_printf ''Helper: Killed by signal %d\<newline>'' 9]"
proof -
  have os: "vfork_child exit3_os = Some 4241" "waitpid_status exit3_os = Some 768"
    "vfork_child killed_os = Some 4241" "waitpid_status killed_os = Some 9"
    by (simp_all add: exit3_os_def killed_os_def linux_os_def)
  have m: "WIFEXITED linux_glibc 768" "WEXITSTATUS linux_glibc 768 = 3"
    "\<not> WIFEXITED linux_glibc 9" "WIFSIGNALED linux_glibc 9" "WTERMSIG linux_glibc 9 = 9"
    by (simp_all add: linux_defs)
  note e = wait_status_decoded [OF os(1,2), of linux_glibc demo_proc 3 0,
      THEN conjunct2, THEN conjunct2, THEN conjunct1]
  note k = wait_status_decoded [OF os(3,4), of linux_glibc demo_proc 0 9,
      THEN conjunct2, THEN conjunct2, THEN conjunct2]
  from e k m show ?thesis by simp
qed

text \<open>
  Claim C6. When \<open>vfork\<close> fails, the thread sets the mask back as its next call,
  reports with \<open>perror\<close>, and ends the process with \<open>EXIT_FAILURE\<close>; the state is the
  initial one but for the trace. There is no child and \<open>waitpid\<close> is never called.
\<close>

theorem vfork_failure:
  assumes "vfork_child os = None"
  shows "parent_view pf os p =
           (Proc_Exit (EXIT_FAILURE pf),
            p\<lparr>trace := trace p @ [Ev_pthread_sigmask SIG_BLOCK, Ev_vfork,
               Ev_pthread_sigmask SIG_SETMASK, Ev_perror ''vfork'']\<rparr>) \<and>
         child_view pf os p = None \<and>
         reaped (appended p (snd (parent_view pf os p))) = [] \<and>
         (pthread_create_ret os = 0 \<longrightarrow>
            fst (main pf os p) = Proc_Exit (EXIT_FAILURE pf) \<and>
            appended p (snd (main pf os p)) =
              [Ev_pthread_create, Ev_pthread_sigmask SIG_BLOCK, Ev_vfork,
               Ev_pthread_sigmask SIG_SETMASK, Ev_perror ''vfork''])"
  using assms
  by (simp add: parent_view_vfork_fails child_view_eq main_def log_def appended_def)

theorem vfork_failure_witness:
  "parent_view linux_glibc vfork_fail_os demo_proc =
     (Proc_Exit 1,
      demo_proc\<lparr>trace := [Ev_pthread_sigmask SIG_BLOCK, Ev_vfork,
         Ev_pthread_sigmask SIG_SETMASK, Ev_perror ''vfork'']\<rparr>) \<and>
   child_view linux_glibc vfork_fail_os demo_proc = None \<and>
   fst (main linux_glibc vfork_fail_os demo_proc) = Proc_Exit 1"
proof -
  have "vfork_child vfork_fail_os = None" "pthread_create_ret vfork_fail_os = 0"
    "EXIT_FAILURE linux_glibc = 1" "trace demo_proc = []"
    by (simp_all add: vfork_fail_os_def linux_defs)
  with vfork_failure [of vfork_fail_os linux_glibc demo_proc] show ?thesis by simp
qed

text \<open>
  Claim C7. When \<open>vfork\<close> created a child, the thread calls \<open>waitpid\<close> exactly once, on the
  child's identifier and with options 0 (a blocking wait). When that call fails, the
  thread reports with \<open>perror\<close> and ends the process with \<open>EXIT_FAILURE\<close>, with no
  second \<open>waitpid\<close> and no \<open>pthread_join\<close>.
\<close>

theorem waitpid_failure:
  assumes "vfork_child os = Some n"
  shows "reaped (appended p (snd (parent_view pf os p))) = [(int n + 1, 0)] \<and>
         (waitpid_status os = None \<longrightarrow>
            parent_view pf os p =
              (Proc_Exit (EXIT_FAILURE pf),
               p\<lparr>trace := trace p @ [Ev_pthread_sigmask SIG_BLOCK, Ev_vfork,
                  Ev_pthread_sigmask SIG_SETMASK, Ev_waitpid (int n + 1) 0, Ev_perror ''wait'']\<rparr>) \<and>
            (pthread_create_ret os = 0 \<longrightarrow>
               fst (main pf os p) = Proc_Exit (EXIT_FAILURE pf) \<and>
               appended p (snd (main pf os p)) =
                 [Ev_pthread_create, Ev_pthread_sigmask SIG_BLOCK, Ev_vfork,
                  Ev_pthread_sigmask SIG_SETMASK, Ev_waitpid (int n + 1) 0, Ev_perror ''wait'']))"
proof (cases "waitpid_status os")
  case None
  with assms show ?thesis
    by (simp add: parent_view_wait_fails main_def log_def appended_def)
next
  case (Some s)
  with assms show ?thesis
    by (simp add: parent_view_reaped report_status_def log_def appended_def)
qed

theorem waitpid_failure_witness:
  "reaped (appended demo_proc (snd (parent_view linux_glibc wait_fail_os demo_proc))) = [(4242, 0)] \<and>
   parent_view linux_glibc wait_fail_os demo_proc =
     (Proc_Exit 1,
      demo_proc\<lparr>trace := [Ev_pthread_sigmask SIG_BLOCK, Ev_vfork,
         Ev_pthread_sigmask SIG_SETMASK, Ev_waitpid 4242 0, Ev_perror ''wait'']\<rparr>) \<and>
   fst (main linux_glibc wait_fail_os demo_proc) = Proc_Exit 1"
proof -
  have "vfork_child wait_fail_os = Some 4241" "waitpid_status wait_fail_os = None"
    "pthread_create_ret wait_fail_os = 0" "EXIT_FAILURE linux_glibc = 1" "trace demo_proc = []"
    by (simp_all add: wait_fail_os_def linux_defs)
  with waitpid_failure [of wait_fail_os 4241 demo_proc linux_glibc] show ?thesis by simp
qed

text \<open>
  Claim C8. The code run with \<open>child = 0\<close> ends in the child and nowhere else: its image
  is replaced, or it ends with \<open>_exit\<close> and code 1, 2 or 3, and every call it makes is one
  of the child's. It reaches \<open>execve\<close> exactly when \<open>sigemptyset\<close> succeeded and no
  signal stopped the loop; then \<open>execve\<close> of the target path, argument vector and
  environment is its last call, and it ends with code 3 exactly when that call fails.
\<close>

theorem child_never_falls_through:
  assumes "after_vfork pf os 0 old p = (out, c)"
  shows "(out = Child_Replaced \<or> out = Child_Exit 1 \<or> out = Child_Exit 2 \<or> out = Child_Exit 3) \<and>
         (\<forall>e\<in>set (appended p c). child_side e) \<and>
         ((out = Child_Replaced \<or> out = Child_Exit 3) \<longleftrightarrow>
            (sigemptyset_ret os = 0 \<and> \<not> (\<exists>j. 0 \<le> j \<and> j < NSIG pf \<and> fatal_at pf os p j))) \<and>
         (out = Child_Replaced \<or> out = Child_Exit 3 \<longrightarrow>
            last (trace c) = Ev_execve filename new_argv new_envp \<and>
            (out = Child_Replaced \<longleftrightarrow> execve_errno os = None) \<and>
            (out = Child_Exit 3 \<longleftrightarrow> execve_errno os \<noteq> None))"
proof -
  from assms have cc: "child_continuation pf os old p = (out, c)"
    by (simp add: after_vfork_def)
  have fa: "fatal_at pf os (log Ev_sigemptyset p) j = fatal_at pf os p j" for j
    by (simp add: fatal_at_def)
  show ?thesis
  proof (cases rule: child_continuation_cases [of os pf old p])
    case emptyset_fails
    with cc show ?thesis by (auto simp: appended_def)
  next
    case (fatal p2)
    from fatal(2) reset_loop_trace [of pf os child_newsa 0 "log Ev_sigemptyset p" p2 2]
    obtain es where es: "trace p2 = trace p @ Ev_sigemptyset # es" "\<forall>e\<in>set es. child_side e"
      by auto
    from fatal(2) have "\<exists>j. 0 \<le> j \<and> j < NSIG pf \<and> fatal_at pf os p j"
      using reset_loop_Inl_iff [of pf os child_newsa 0 "log Ev_sigemptyset p"] by (simp add: fa)
    with fatal cc es show ?thesis by (auto simp: appended_def)
  next
    case (exec p2)
    from exec(2) reset_loop_trace [of pf os child_newsa 0 "log Ev_sigemptyset p" p2]
    obtain es where es: "trace p2 = trace p @ Ev_sigemptyset # es" "\<forall>e\<in>set es. child_side e"
      by auto
    from exec(2) have "\<not> (\<exists>j. 0 \<le> j \<and> j < NSIG pf \<and> fatal_at pf os p j)"
      using reset_loop_Inl_iff [of pf os child_newsa 0 "log Ev_sigemptyset p"] by (simp add: fa)
    with exec cc es show ?thesis by (auto simp: appended_def split: option.splits)
  qed
qed

theorem child_never_falls_through_witness:
  "fst (after_vfork linux_glibc exec_fail_os 0 {10} demo_proc) = Child_Exit 3 \<and>
   last (trace (snd (after_vfork linux_glibc exec_fail_os 0 {10} demo_proc))) =
     Ev_execve ''/bin/ls'' [''/bin/ls''] [] \<and>
   execve_errno exec_fail_os = Some 2 \<and>
   list_all child_side (appended demo_proc (snd (after_vfork linux_glibc exec_fail_os 0 {10} demo_proc)))"
proof -
  define r where "r = after_vfork linux_glibc exec_fail_os 0 {10} demo_proc"
  have out: "fst r = Child_Exit 3"
    unfolding r_def by (simp add: model_defs linux_defs exec_fail_os_def reset_loop.simps)
  then have r: "after_vfork linux_glibc exec_fail_os 0 {10} demo_proc = (Child_Exit 3, snd r)"
    unfolding r_def by (simp add: prod_eq_iff)
  have e: "execve_errno exec_fail_os = Some 2"
    by (simp add: exec_fail_os_def)
  have "last (trace (snd r)) = Ev_execve filename new_argv new_envp"
    using child_never_falls_through [OF r, THEN conjunct2, THEN conjunct2, THEN conjunct2] by simp
  moreover have "\<forall>e\<in>set (appended demo_proc (snd r)). child_side e"
    using child_never_falls_through [OF r, THEN conjunct2, THEN conjunct1] .
  ultimately show ?thesis
    using out e unfolding r_def by (simp add: list_all_iff filename_def new_argv_def new_envp_def)
qed

text \<open>
  Claim C9. When \<open>pthread_create\<close> fails, \<open>main\<close> reports it on \<open>stderr\<close> and ends the
  process with \<open>EXIT_FAILURE\<close>, having made no other call. When the helper thread has
  returned, \<open>main\<close> calls \<open>pthread_join\<close> once; if that fails it reports it on \<open>stderr\<close>
  and ends the process with \<open>EXIT_FAILURE\<close>. When the child was reaped, the join comes
  after the thread's calls and the raw wait status is in the global \<open>status\<close>.
\<close>

theorem coordinator_create_join:
  "(pthread_create_ret os \<noteq> 0 \<longrightarrow>
      main pf os p =
        (Proc_Exit (EXIT_FAILURE pf),
         p\<lparr>trace := trace p @ [Ev_pthread_create,
            Ev_fprintf_stderr ''pthread_create: %s\<newline>'' (pthread_create_ret os)]\<rparr>)) \<and>
   (pthread_create_ret os = 0 \<and> parent_view pf os (log Ev_pthread_create p) = (Thread_Return, p2) \<longrightarrow>
      main pf os p =
        (if pthread_join_ret os \<noteq> 0
         then (Proc_Exit (EXIT_FAILURE pf),
               p2\<lparr>trace := trace p2 @ [Ev_pthread_join,
                  Ev_fprintf_stderr ''pthread_join: %s\<newline>'' (pthread_join_ret os)]\<rparr>)
         else (Proc_Exit (EXIT_SUCCESS pf), p2\<lparr>trace := trace p2 @ [Ev_pthread_join]\<rparr>))) \<and>
   (pthread_create_ret os = 0 \<and> vfork_child os = Some n \<and> waitpid_status os = Some s \<longrightarrow>
      fst (parent_view pf os (log Ev_pthread_create p)) = Thread_Return \<and>
      status (snd (main pf os p)) = s \<and>
      length (filter (\<lambda>e. e = Ev_pthread_join) (appended p (snd (main pf os p)))) = 1)"
proof (intro conjI impI)
  assume "pthread_create_ret os \<noteq> 0"
  then show "main pf os p =
        (Proc_Exit (EXIT_FAILURE pf),
         p\<lparr>trace := trace p @ [Ev_pthread_create,
            Ev_fprintf_stderr ''pthread_create: %s\<newline>'' (pthread_create_ret os)]\<rparr>)"
    by (simp add: main_def log_def)
next
  assume "pthread_create_ret os = 0 \<and> parent_view pf os (log Ev_pthread_create p) = (Thread_Return, p2)"
  then show "main pf os p =
        (if pthread_join_ret os \<noteq> 0
         then (Proc_Exit (EXIT_FAILURE pf),
               p2\<lparr>trace := trace p2 @ [Ev_pthread_join,
                  Ev_fprintf_stderr ''pthread_join: %s\<newline>'' (pthread_join_ret os)]\<rparr>)
         else (Proc_Exit (EXIT_SUCCESS pf), p2\<lparr>trace := trace p2 @ [Ev_pthread_join]\<rparr>))"
    by (simp add: main_def log_def)
next
  assume a: "pthread_create_ret os = 0 \<and> vfork_child os = Some n \<and> waitpid_status os = Some s"
  define q where "q = report_status pf ((log Ev_pthread_create p)\<lparr>status := s,
      trace := trace (log Ev_pthread_create p) @ [Ev_pthread_sigmask SIG_BLOCK, Ev_vfork,
         Ev_pthread_sigmask SIG_SETMASK, Ev_waitpid (int n + 1) 0]\<rparr>)"
  have pv: "parent_view pf os (log Ev_pthread_create p) = (Thread_Return, q)"
    using a unfolding q_def by (simp add: parent_view_reaped)
  have q: "status q = s" "\<exists>es. trace q = trace p @ es \<and> Ev_pthread_join \<notin> set es"
    unfolding q_def by (simp_all add: report_status_def)
  then obtain es where es: "trace q = trace p @ es" "Ev_pthread_join \<notin> set es" by blast
  have m: "main pf os p =
        (if pthread_join_ret os \<noteq> 0
         then (Proc_Exit (EXIT_FAILURE pf),
               q\<lparr>trace := trace q @ [Ev_pthread_join,
                  Ev_fprintf_stderr ''pthread_join: %s\<newline>'' (pthread_join_ret os)]\<rparr>)
         else (Proc_Exit (EXIT_SUCCESS pf), q\<lparr>trace := trace q @ [Ev_pthread_join]\<rparr>))"
    using a pv by (simp add: main_def log_def)
  from pv show "fst (parent_view pf os (log Ev_pthread_create p)) = Thread_Return"
    by simp
  from m q(1) show "status (snd (main pf os p)) = s"
    by simp
  have "filter (\<lambda>e. e = Ev_pthread_join) es = []"
    using es(2) by (auto simp: filter_empty_conv)
  with m es(1) show "length (filter (\<lambda>e. e = Ev_pthread_join) (appended p (snd (main pf os p)))) = 1"
    by (simp add: appended_def)
qed

theorem coordinator_create_join_witness:
  "main linux_glibc create_fail_os demo_proc =
     (Proc_Exit 1,
      demo_proc\<lparr>trace := [Ev_pthread_create, Ev_fprintf_stderr ''pthread_create: %s\<newline>'' 11]\<rparr>) \<and>
   fst (parent_view linux_glibc join_fail_os (log Ev_pthread_create demo_proc)) = Thread_Return \<and>
   fst (main linux_glibc join_fail_os demo_proc) = Proc_Exit 1 \<and>
   last (trace (snd (main linux_glibc join_fail_os demo_proc))) =
     Ev_fprintf_stderr ''pthread_join: %s\<newline>'' 3 \<and>
   status (snd (main linux_glibc exit3_os demo_proc)) = 768"
proof -
  have f: "pthread_create_ret create_fail_os = 11" "pthread_create_ret join_fail_os = 0"
    "pthread_join_ret join_fail_os = 3" "EXIT_FAILURE linux_glibc = 1" "trace demo_proc = []"
    "pthread_create_ret exit3_os = 0" "vfork_child exit3_os = Some 4241"
    "waitpid_status exit3_os = Some 768"
    by (simp_all add: create_fail_os_def join_fail_os_def exit3_os_def linux_defs)
  define q where "q = snd (parent_view linux_glibc join_fail_os (log Ev_pthread_create demo_proc))"
  have pv: "fst (parent_view linux_glibc join_fail_os (log Ev_pthread_create demo_proc)) = Thread_Return"
    by (simp add: model_defs linux_defs join_fail_os_def)
  then have pq: "parent_view linux_glibc join_fail_os (log Ev_pthread_create demo_proc) = (Thread_Return, q)"
    unfolding q_def by (simp add: prod_eq_iff)
  have "main linux_glibc create_fail_os demo_proc =
     (Proc_Exit 1,
      demo_proc\<lparr>trace := [Ev_pthread_create, Ev_fprintf_stderr ''pthread_create: %s\<newline>'' 11]\<rparr>)"
    using coordinator_create_join [of create_fail_os linux_glibc demo_proc, THEN conjunct1] f
    by simp
  moreover have "main linux_glibc join_fail_os demo_proc =
     (Proc_Exit 1, q\<lparr>trace := trace q @ [Ev_pthread_join, Ev_fprintf_stderr ''pthread_join: %s\<newline>'' 3]\<rparr>)"
    using coordinator_create_join [of join_fail_os linux_glibc demo_proc q,
        THEN conjunct2, THEN conjunct1] f pq
    by simp
  moreover have "status (snd (main linux_glibc exit3_os demo_proc)) = 768"
    using coordinator_create_join [of exit3_os linux_glibc demo_proc _ 4241 768,
        THEN conjunct2, THEN conjunct2] f
    by simp
  ultimately show ?thesis using pv by simp
qed

text \<open>
  Claim C10, as stated, fails: thread creation, the spawn and the reap succeed, the join
  fails, and the process ends with \<open>EXIT_FAILURE\<close>.
\<close>

theorem join_failure_exit_code_cex:
  "pthread_create_ret join_fail_os = 0 \<and> vfork_child join_fail_os = Some 4241 \<and>
   waitpid_status join_fail_os = Some 0 \<and>
   fst (main linux_glibc join_fail_os demo_proc) = Proc_Exit (EXIT_FAILURE linux_glibc) \<and>
   EXIT_FAILURE linux_glibc \<noteq> EXIT_SUCCESS linux_glibc"
  by (simp add: model_defs linux_defs join_fail_os_def)

text \<open>
  Claim C10, amended. When thread creation, the spawn, the reap and the join all
  succeed, the process ends with \<open>EXIT_SUCCESS\<close>, whatever the raw wait status is; the
  helper thread returns without a value.
\<close>

theorem exit_code_ignores_child_status:
  assumes "pthread_create_ret os = 0" and "vfork_child os = Some n"
    and "waitpid_status os = Some s" and "pthread_join_ret os = 0"
  shows "fst (main pf os p) = Proc_Exit (EXIT_SUCCESS pf) \<and>
         fst (parent_view pf os (log Ev_pthread_create p)) = Thread_Return"
  using assms by (simp add: main_def parent_view_reaped)

theorem exit_code_ignores_child_status_witness:
  "fst (main linux_glibc exit3_os demo_proc) = Proc_Exit 0 \<and>
   fst (main linux_glibc killed_os demo_proc) = Proc_Exit 0 \<and>
   fst (main linux_glibc (linux_os\<lparr>waitpid_status := Some 4991\<rparr>) demo_proc) = Proc_Exit 0"
proof -
  have f: "pthread_create_ret exit3_os = 0" "vfork_child exit3_os = Some 4241"
    "waitpid_status exit3_os = Some 768" "pthread_join_ret exit3_os = 0"
    "pthread_create_ret killed_os = 0" "vfork_child killed_os = Some 4241"
    "waitpid_status killed_os = Some 9" "pthread_join_ret killed_os = 0"
    "EXIT_SUCCESS linux_glibc = 0"
    by (simp_all add: exit3_os_def killed_os_def linux_defs)
  have g: "pthread_create_ret (linux_os\<lparr>waitpid_status := Some 4991\<rparr>) = 0"
    "vfork_child (linux_os\<lparr>waitpid_status := Some 4991\<rparr>) = Some 4241"
    "waitpid_status (linux_os\<lparr>waitpid_status := Some 4991\<rparr>) = Some 4991"
    "pthread_join_ret (linux_os\<lparr>waitpid_status := Some 4991\<rparr>) = 0"
    by (simp_all add: linux_defs)
  from exit_code_ignores_child_status [OF f(1-4), of linux_glibc demo_proc]
    exit_code_ignores_child_status [OF f(5-8), of linux_glibc demo_proc]
    exit_code_ignores_child_status [OF g, of linux_glibc demo_proc] f(9)
  show ?thesis by simp
qed

end
